theory Spec2Isabelle
  imports Complex_Main "HOL-Library.Sublist"
begin

section \<open>Data model of the vector store\<close>

text \<open>
  The development embeds the TypeScript classes \<^verbatim>\<open>VectorDatabase\<close> (the vector store),
  \<^verbatim>\<open>GeminiService\<close> (the embedding calls) and \<^verbatim>\<open>NoteIndexer\<close> (the indexing pipeline). The chat
  methods, \<^verbatim>\<open>clear\<close>, \<^verbatim>\<open>getStats\<close>, \<^verbatim>\<open>getAllNoteIds\<close> and \<^verbatim>\<open>needsReindexing\<close> are not embedded.

  Conventions of the embedding.
  \<^item> A JavaScript \<^verbatim>\<open>number\<close> is modelled as a mathematical \<open>real\<close>: arithmetic is exact,
    so rounding, overflow to \<^verbatim>\<open>Infinity\<close> and \<^verbatim>\<open>NaN\<close> of IEEE doubles are outside the model.
    Comparisons of numbers, which is all that the ranking and the staleness test use, are exact
    in both. Counts returned by the code are \<open>nat\<close>; the \<^verbatim>\<open>topK\<close> argument of \<^verbatim>\<open>search\<close>,
    which \<^verbatim>\<open>slice\<close> truncates to an integer, is an \<open>int\<close>.
  \<^item> A JavaScript string is a \<open>string\<close>, one \<open>char\<close> per code unit; a \<open>char\<close> has eight bits,
    so the strings of the model are those of code units below 256.
  \<^item> A JavaScript \<^verbatim>\<open>Map\<close> iterates in insertion order, and \<^verbatim>\<open>set\<close> on a present key keeps
    the key's position; it is modelled as an association list in iteration order. The keys of
    a \<^verbatim>\<open>Map\<close> are distinct; the theorems below hold of every list.
  \<^item> An \<^verbatim>\<open>async\<close> method is modelled by its sequential effect on an explicit state; a
    thrown exception is the \<open>Inl\<close> branch of a sum. Notices and console output are omitted.
    The load that the constructor of the store starts without awaiting it is not modelled:
    a store begins unloaded and its first method call loads it.
  \<^item> The field \<^verbatim>\<open>id\<close> of \<^verbatim>\<open>VectorEntry\<close> is named \<open>entry_id\<close>, as \<open>id\<close> is the identity
    function of HOL; the fields \<^verbatim>\<open>note\<close> of \<^verbatim>\<open>SearchResult\<close> and the parameter names \<^verbatim>\<open>file\<close>,
    \<^verbatim>\<open>end\<close> and \<^verbatim>\<open>text\<close> are renamed because they are keywords.
\<close>

type_synonym number = real

record VectorEntry =
  entry_id :: string
  embedding :: "number list"
  content :: string
  title :: string
  modified :: number
  tags :: "string list option"

record SearchResult =
  note_of :: VectorEntry
  similarity :: number

text \<open>The part of Obsidian's \<^verbatim>\<open>TFile\<close> that the code reads; \<open>mtime\<close> is \<^verbatim>\<open>file.stat.mtime\<close>.\<close>

record TFile =
  path :: string
  basename :: string
  mtime :: number

datatype error = LoadError | SaveError | ReadError | EmbeddingError

subsection \<open>JavaScript \<^verbatim>\<open>Map\<close> and \<^verbatim>\<open>Array\<close> primitives\<close>

type_synonym ('k, 'v) js_map = "('k \<times> 'v) list"

fun Map_set :: "('k, 'v) js_map \<Rightarrow> 'k \<Rightarrow> 'v \<Rightarrow> ('k, 'v) js_map" where
  "Map_set [] k v = [(k, v)]"
| "Map_set ((k', v') # m) k v =
     (if k' = k then (k, v) # m else (k', v') # Map_set m k v)"

fun Map_get :: "('k, 'v) js_map \<Rightarrow> 'k \<Rightarrow> 'v option" where
  "Map_get [] k = None"
| "Map_get ((k', v') # m) k = (if k' = k then Some v' else Map_get m k)"

fun Map_delete :: "('k, 'v) js_map \<Rightarrow> 'k \<Rightarrow> ('k, 'v) js_map" where
  "Map_delete [] k = []"
| "Map_delete ((k', v') # m) k =
     (if k' = k then Map_delete m k else (k', v') # Map_delete m k)"

definition Map_keys :: "('k, 'v) js_map \<Rightarrow> 'k list" where
  "Map_keys m = map fst m"

definition Map_values :: "('k, 'v) js_map \<Rightarrow> 'v list" where
  "Map_values m = map snd m"

definition Map_size :: "('k, 'v) js_map \<Rightarrow> nat" where
  "Map_size m = length m"

text \<open>
  \<^verbatim>\<open>Array.prototype.slice(start, end)\<close>: a negative bound counts from the end of the
  array, and both bounds are clamped to the array.
\<close>

definition slice_bound :: "nat \<Rightarrow> int \<Rightarrow> nat" where
  "slice_bound len i = (if i < 0 then nat (max (int len + i) 0) else min (nat i) len)"

definition slice :: "'a list \<Rightarrow> int \<Rightarrow> int \<Rightarrow> 'a list" where
  "slice xs start end_i =
     (let k = slice_bound (length xs) start; final = slice_bound (length xs) end_i
      in take (final - k) (drop k xs))"

text \<open>
  \<^verbatim>\<open>Array.prototype.sort(compareFn)\<close> is a stable sort: \<open>a\<close> comes before \<open>b\<close> when
  \<open>compareFn a b < 0\<close>, after it when \<open>compareFn a b > 0\<close>, and elements that compare equal
  keep their order. It is modelled by insertion sort.
\<close>

fun sort_insert :: "('a \<Rightarrow> 'a \<Rightarrow> number) \<Rightarrow> 'a \<Rightarrow> 'a list \<Rightarrow> 'a list" where
  "sort_insert compareFn x [] = [x]"
| "sort_insert compareFn x (y # ys) =
     (if compareFn x y \<le> 0 then x # y # ys else y # sort_insert compareFn x ys)"

fun array_sort :: "('a \<Rightarrow> 'a \<Rightarrow> number) \<Rightarrow> 'a list \<Rightarrow> 'a list" where
  "array_sort compareFn [] = []"
| "array_sort compareFn (x # xs) = sort_insert compareFn x (array_sort compareFn xs)"

section \<open>The vector store (\<^verbatim>\<open>VectorDatabase\<close>)\<close>

text \<open>
  The file at \<^verbatim>\<open>dbPath\<close> is absent (\<open>None\<close>), not parsable as the expected JSON
  (\<open>Unparsable\<close>: \<^verbatim>\<open>JSON.parse\<close> or the \<^verbatim>\<open>forEach\<close> throws), JSON without an array
  \<^verbatim>\<open>vectors\<close> (\<open>NoVectors\<close>), or a saved list of entries. The \<^verbatim>\<open>lastUpdated\<close> time stamp
  of the saved file is not modelled.
\<close>

datatype db_file = Unparsable | NoVectors | Vectors "VectorEntry list"

text \<open>
  The state of the store: the in-memory \<^verbatim>\<open>Map\<close>, the \<^verbatim>\<open>loaded\<close> flag, the file behind
  \<^verbatim>\<open>dbPath\<close>, and the number of completed \<^verbatim>\<open>adapter.write\<close> calls (the flushes).
\<close>

record VectorDatabase =
  db :: "(string, VectorEntry) js_map"
  loaded :: bool
  disk :: "db_file option"
  writes :: nat

text \<open>
  What the store and the indexer see of \<^verbatim>\<open>app.vault\<close>: whether the adapter's calls made by
  \<^verbatim>\<open>loadDatabase\<close> succeed, whether those made by \<^verbatim>\<open>saveDatabase\<close> succeed, the list that
  \<^verbatim>\<open>getMarkdownFiles()\<close> returns, and \<^verbatim>\<open>cachedRead\<close>, which may throw.
\<close>

record vault =
  read_ok :: bool
  write_ok :: bool
  getMarkdownFiles :: "TFile list"
  cachedRead :: "TFile \<Rightarrow> error + string"

definition loadDatabase :: "vault \<Rightarrow> VectorDatabase \<Rightarrow> VectorDatabase" where
  "loadDatabase a s =
     (if \<not> read_ok a then s\<lparr>db := [], loaded := True\<rparr>
      else case disk s of
        None \<Rightarrow> s\<lparr>loaded := True\<rparr>
      | Some Unparsable \<Rightarrow> s\<lparr>db := [], loaded := True\<rparr>
      | Some NoVectors \<Rightarrow> s\<lparr>loaded := True\<rparr>
      | Some (Vectors vs) \<Rightarrow>
          s\<lparr>db := fold (\<lambda>entry m. Map_set m (entry_id entry) entry) vs (db s),
            loaded := True\<rparr>)"

definition saveDatabase :: "vault \<Rightarrow> VectorDatabase \<Rightarrow> error + VectorDatabase" where
  "saveDatabase a s =
     (if \<not> write_ok a then Inl SaveError
      else Inr (s\<lparr>disk := Some (Vectors (Map_values (db s))), writes := Suc (writes s)\<rparr>))"

text \<open>The guard \<^verbatim>\<open>if (!this.loaded) await this.loadDatabase()\<close> that opens every method.\<close>

definition ensureLoaded :: "vault \<Rightarrow> VectorDatabase \<Rightarrow> VectorDatabase" where
  "ensureLoaded a s = (if \<not> loaded s then loadDatabase a s else s)"

text \<open>
  A mutating method returns the error or the value together with the state it leaves: when
  \<^verbatim>\<open>saveDatabase\<close> throws, the in-memory map has already been changed.
\<close>

definition flush :: "vault \<Rightarrow> VectorDatabase \<Rightarrow> 'a \<Rightarrow> (error + 'a) \<times> VectorDatabase" where
  "flush a s r = (case saveDatabase a s of Inl e \<Rightarrow> (Inl e, s) | Inr s' \<Rightarrow> (Inr r, s'))"

definition addVector :: "vault \<Rightarrow> VectorEntry \<Rightarrow> VectorDatabase \<Rightarrow> (error + unit) \<times> VectorDatabase" where
  "addVector a entry s =
     (let s1 = ensureLoaded a s;
          s2 = s1\<lparr>db := Map_set (db s1) (entry_id entry) entry\<rparr>
      in flush a s2 ())"

definition addVectors :: "vault \<Rightarrow> VectorEntry list \<Rightarrow> VectorDatabase \<Rightarrow> (error + unit) \<times> VectorDatabase" where
  "addVectors a entries s =
     (let s1 = ensureLoaded a s;
          s2 = s1\<lparr>db := fold (\<lambda>entry m. Map_set m (entry_id entry) entry) entries (db s1)\<rparr>
      in flush a s2 ())"

definition removeVector :: "vault \<Rightarrow> string \<Rightarrow> VectorDatabase \<Rightarrow> (error + unit) \<times> VectorDatabase" where
  "removeVector a i s =
     (let s1 = ensureLoaded a s;
          s2 = s1\<lparr>db := Map_delete (db s1) i\<rparr>
      in flush a s2 ())"


definition cosineSimilarity :: "number list \<Rightarrow> number list \<Rightarrow> number" where
  "cosineSimilarity a b =
     (if length a \<noteq> length b then 0
      else
        let (dotProduct, normA, normB) =
              fold (\<lambda>i (dotProduct, normA, normB).
                      (dotProduct + a ! i * b ! i, normA + a ! i * a ! i, normB + b ! i * b ! i))
                   [0..<length a] (0, 0, 0)
        in if normA = 0 \<or> normB = 0 then 0
           else dotProduct / (sqrt normA * sqrt normB))"

text \<open>
  \<^verbatim>\<open>search(queryEmbedding, topK)\<close>. The default \<^verbatim>\<open>topK = 5\<close> is the caller's choice of
  argument here. The loop over \<^verbatim>\<open>this.db.values()\<close> is the \<open>fold\<close>.
\<close>

definition search :: "vault \<Rightarrow> number list \<Rightarrow> int \<Rightarrow> VectorDatabase \<Rightarrow> SearchResult list \<times> VectorDatabase" where
  "search a queryEmbedding topK s =
     (let s1 = ensureLoaded a s
      in if length queryEmbedding = 0 then ([], s1)
         else
           let results =
                 fold (\<lambda>entry results.
                         if length (embedding entry) > 0
                         then results @ [\<lparr>note_of = entry,
                                 similarity = cosineSimilarity queryEmbedding (embedding entry)\<rparr>]
                         else results)
                      (Map_values (db s1)) [];
               sorted_results = array_sort (\<lambda>a b. similarity b - similarity a) results
           in (slice sorted_results 0 topK, s1))"

definition getModifiedNotes :: "vault \<Rightarrow> VectorDatabase \<Rightarrow> TFile list \<times> VectorDatabase" where
  "getModifiedNotes a s =
     (let s1 = ensureLoaded a s;
          modifiedFiles =
            fold (\<lambda>f modifiedFiles.
                    case Map_get (db s1) (path f) of
                      None \<Rightarrow> modifiedFiles @ [f]
                    | Some entry \<Rightarrow>
                        if mtime f > modified entry then modifiedFiles @ [f] else modifiedFiles)
                 (getMarkdownFiles a) []
      in (modifiedFiles, s1))"

definition removeDeletedNotes :: "vault \<Rightarrow> VectorDatabase \<Rightarrow> (error + nat) \<times> VectorDatabase" where
  "removeDeletedNotes a s =
     (let s1 = ensureLoaded a s;
          currentPaths = set (map path (getMarkdownFiles a));
          toDelete = fold (\<lambda>i toDelete. if i \<notin> currentPaths then toDelete @ [i] else toDelete)
                          (Map_keys (db s1)) [];
          s2 = s1\<lparr>db := fold (\<lambda>i m. Map_delete m i) toDelete (db s1)\<rparr>
      in if length toDelete > 0 then flush a s2 (length toDelete)
         else (Inr (length toDelete), s2))"

section \<open>Text processing of the indexer\<close>

subsection \<open>JavaScript string and regular-expression primitives\<close>

text \<open>
  The characters that \<^verbatim>\<open>\s\<close> and \<^verbatim>\<open>trim()\<close> treat as white space, the line terminators that
  \<^verbatim>\<open>.\<close> excludes and after which \<^verbatim>\<open>^\<close> matches under the flag \<^verbatim>\<open>m\<close>, and the characters of
  \<^verbatim>\<open>\w\<close>. A \<open>char\<close> has eight bits, so of JavaScript's white space the code units above
  255 are not represented.
\<close>

definition is_space :: "char \<Rightarrow> bool" where
  "is_space c \<longleftrightarrow>
     c \<in> set [CHR 0x09, CHR ''\<newline>'', CHR 0x0B, CHR 0x0C, CHR 0x0D, CHR '' '', CHR 0xA0]"

definition is_line_terminator :: "char \<Rightarrow> bool" where
  "is_line_terminator c \<longleftrightarrow> c = CHR ''\<newline>'' \<or> c = CHR 0x0D"

definition is_word :: "char \<Rightarrow> bool" where
  "is_word c \<longleftrightarrow>
     c \<in> set ''abcdefghijklmnopqrstuvwxyzABCDEFGHIJKLMNOPQRSTUVWXYZ0123456789_''"

definition trim :: "string \<Rightarrow> string" where
  "trim s = rev (dropWhile is_space (rev (dropWhile is_space s)))"

text \<open>\<^verbatim>\<open>substring(start, end)\<close> swaps its bounds when they are out of order.\<close>

definition substring :: "string \<Rightarrow> nat \<Rightarrow> nat \<Rightarrow> string" where
  "substring s start end_i = take (max start end_i - min start end_i) (drop (min start end_i) s)"

text \<open>\<^verbatim>\<open>split(sep)\<close> on a one-character separator; the empty string splits into one empty string.\<close>

fun split :: "char \<Rightarrow> string \<Rightarrow> string list" where
  "split sep [] = [[]]"
| "split sep (c # cs) =
     (if c = sep then [] # split sep cs
      else case split sep cs of
             [] \<Rightarrow> [[c]]
           | t # ts \<Rightarrow> (c # t) # ts)"

text \<open>\<^verbatim>\<open>[...new Set(tags)]\<close>: the elements in the order of their first occurrence.\<close>

definition Set_values :: "'a list \<Rightarrow> 'a list" where
  "Set_values xs = fold (\<lambda>x seen. if x \<in> set seen then seen else seen @ [x]) xs []"

text \<open>
  A regular expression is modelled by its match at one position: given whether the position
  is the start of the input or follows a line terminator, and the input from the position on,
  a matcher returns the replacement text and the input that follows the match, or \<open>None\<close> when
  the expression does not match there.
\<close>

type_synonym matcher = "bool \<Rightarrow> string \<Rightarrow> (string \<times> string) option"

definition ends_line :: "string \<Rightarrow> bool" where
  "ends_line consumed \<longleftrightarrow> consumed \<noteq> [] \<and> is_line_terminator (last consumed)"

text \<open>\<^verbatim>\<open>replace\<close> with a regular expression without the flag \<^verbatim>\<open>g\<close>: the leftmost match only.\<close>

fun replace_first :: "matcher \<Rightarrow> bool \<Rightarrow> string \<Rightarrow> string" where
  "replace_first m bol [] = (case m bol [] of Some (out, rest) \<Rightarrow> out @ rest | None \<Rightarrow> [])"
| "replace_first m bol (c # cs) =
     (case m bol (c # cs) of
        Some (out, rest) \<Rightarrow> out @ rest
      | None \<Rightarrow> c # replace_first m (is_line_terminator c) cs)"

text \<open>
  \<^verbatim>\<open>replace\<close> with the flag \<^verbatim>\<open>g\<close>: the matches from left to right, each search starting
  where the previous match ended (one character further on after an empty match).
\<close>

function replace_all :: "matcher \<Rightarrow> bool \<Rightarrow> string \<Rightarrow> string" where
  "replace_all m bol s =
     (case m bol s of
        Some (out, rest) \<Rightarrow>
          if length rest < length s
          then out @ replace_all m (ends_line (take (length s - length rest) s)) rest
          else (case s of [] \<Rightarrow> out | c # cs \<Rightarrow> out @ c # replace_all m (is_line_terminator c) cs)
      | None \<Rightarrow>
          (case s of [] \<Rightarrow> [] | c # cs \<Rightarrow> c # replace_all m (is_line_terminator c) cs))"
  by pat_completeness auto
termination
  by (relation "measure (\<lambda>(m, bol, s). length s)") auto

declare replace_all.simps [simp del]

text \<open>\<^verbatim>\<open>match\<close> with the flag \<^verbatim>\<open>g\<close>: the matched texts from left to right.\<close>

function match_all :: "matcher \<Rightarrow> bool \<Rightarrow> string \<Rightarrow> string list" where
  "match_all m bol s =
     (case m bol s of
        Some (out, rest) \<Rightarrow>
          if length rest < length s
          then take (length s - length rest) s
                 # match_all m (ends_line (take (length s - length rest) s)) rest
          else (case s of [] \<Rightarrow> [[]] | c # cs \<Rightarrow> [] # match_all m (is_line_terminator c) cs)
      | None \<Rightarrow>
          (case s of [] \<Rightarrow> [] | c # cs \<Rightarrow> match_all m (is_line_terminator c) cs))"
  by pat_completeness auto
termination
  by (relation "measure (\<lambda>(m, bol, s). length s)") auto

declare match_all.simps [simp del]

text \<open>The leftmost position at which a pattern without \<^verbatim>\<open>^\<close> matches (\<^verbatim>\<open>match\<close> without \<^verbatim>\<open>g\<close>).\<close>

fun search_first :: "(string \<Rightarrow> 'a option) \<Rightarrow> string \<Rightarrow> 'a option" where
  "search_first m [] = m []"
| "search_first m (c # cs) = (case m (c # cs) of Some r \<Rightarrow> Some r | None \<Rightarrow> search_first m cs)"

text \<open>
  The lazy \<^verbatim>\<open>[\s\S]*?\<close> followed by a literal: the text before and the text after the first
  occurrence of the literal.
\<close>

fun split_at_first :: "string \<Rightarrow> string \<Rightarrow> (string \<times> string) option" where
  "split_at_first lit [] = (if lit = [] then Some ([], []) else None)"
| "split_at_first lit (c # cs) =
     (if prefix lit (c # cs) then Some ([], drop (length lit) (c # cs))
      else map_option (\<lambda>(before, after). (c # before, after)) (split_at_first lit cs))"

text \<open>
  A literal, one or more characters of a class, and a literal that does not begin with a
  character of the class: the greedy run is the longest one.
\<close>

definition m_delimited :: "string \<Rightarrow> (char \<Rightarrow> bool) \<Rightarrow> string \<Rightarrow> (string \<Rightarrow> string) \<Rightarrow> matcher" where
  "m_delimited opening inside closing out bol s =
     (if prefix opening s
      then let r = drop (length opening) s;
               body = takeWhile inside r;
               r' = dropWhile inside r
           in if body \<noteq> [] \<and> prefix closing r' then Some (out body, drop (length closing) r')
              else None
      else None)"

subsection \<open>The expressions of \<^verbatim>\<open>preprocessContent\<close>\<close>

text \<open>\<^verbatim>\<open>/^---[\s\S]*?---\n?/m\<close>, replaced by the empty string.\<close>

definition m_frontmatter :: matcher where
  "m_frontmatter bol s =
     (if bol \<and> prefix ''---'' s
      then case split_at_first ''---'' (drop 3 s) of
             None \<Rightarrow> None
           | Some (body, rest) \<Rightarrow>
               Some ([], if prefix ''\<newline>'' rest then drop 1 rest else rest)
      else None)"

text \<open>\<^verbatim>\<open>/```[\s\S]*?```/g\<close>, replaced by \<^verbatim>\<open>[code block]\<close>.\<close>

definition fence :: string where
  "fence = [CHR 0x60, CHR 0x60, CHR 0x60]"

definition m_code_block :: matcher where
  "m_code_block bol s =
     (if prefix fence s
      then case split_at_first fence (drop 3 s) of
             None \<Rightarrow> None
           | Some (body, rest) \<Rightarrow> Some (''[code block]'', rest)
      else None)"

text \<open>\<^verbatim>\<open>/`[^`]+`/g\<close>, replaced by \<^verbatim>\<open>[inline code]\<close>.\<close>

definition m_inline_code :: matcher where
  "m_inline_code = m_delimited [CHR 0x60] (\<lambda>c. c \<noteq> CHR 0x60) [CHR 0x60] (\<lambda>body. ''[inline code]'')"

text \<open>\<^verbatim>\<open>/^#+\s+/gm\<close>, replaced by the empty string.\<close>

definition m_header :: matcher where
  "m_header bol s =
     (let hashes = takeWhile (\<lambda>c. c = CHR ''#'') s;
          r = dropWhile (\<lambda>c. c = CHR ''#'') s;
          spaces = takeWhile is_space r
      in if bol \<and> hashes \<noteq> [] \<and> spaces \<noteq> [] then Some ([], dropWhile is_space r) else None)"

text \<open>\<^verbatim>\<open>/\[([^\]]+)\]\([^)]+\)/g\<close>, replaced by \<^verbatim>\<open>$1\<close>.\<close>

definition m_link :: matcher where
  "m_link bol s =
     (case m_delimited ''['' (\<lambda>c. c \<noteq> CHR '']'') ''](''  (\<lambda>body. body) bol s of
        None \<Rightarrow> None
      | Some (text, r) \<Rightarrow>
          let url = takeWhile (\<lambda>c. c \<noteq> CHR '')'') r;
              r' = dropWhile (\<lambda>c. c \<noteq> CHR '')'') r
          in if url \<noteq> [] \<and> prefix '')'' r' then Some (text, drop 1 r') else None)"

text \<open>\<^verbatim>\<open>/!\[([^\]]*)\]\([^)]+\)/g\<close>, replaced by \<^verbatim>\<open>[image: $1]\<close>.\<close>

definition m_image :: matcher where
  "m_image bol s =
     (if prefix ''!['' s
      then let alt = takeWhile (\<lambda>c. c \<noteq> CHR '']'') (drop 2 s);
               r = dropWhile (\<lambda>c. c \<noteq> CHR '']'') (drop 2 s);
               url = takeWhile (\<lambda>c. c \<noteq> CHR '')'') (drop 2 r);
               r' = dropWhile (\<lambda>c. c \<noteq> CHR '')'') (drop 2 r)
           in if prefix ''](''  r \<and> url \<noteq> [] \<and> prefix '')'' r'
              then Some (''[image: '' @ alt @ '']'', drop 1 r')
              else None
      else None)"

text \<open>
  \<^verbatim>\<open>/\*\*([^*]+)\*\*/g\<close>, \<^verbatim>\<open>/\*([^*]+)\*/g\<close>, \<^verbatim>\<open>/__([^_]+)__/g\<close> and \<^verbatim>\<open>/_([^_]+)_/g\<close>, each
  replaced by \<^verbatim>\<open>$1\<close>.
\<close>

definition m_emphasis :: "string \<Rightarrow> char \<Rightarrow> matcher" where
  "m_emphasis mark c = m_delimited mark (\<lambda>x. x \<noteq> c) mark (\<lambda>body. body)"

text \<open>\<^verbatim>\<open>/\n{3,}/g\<close>, replaced by two newlines.\<close>

definition m_newlines :: matcher where
  "m_newlines bol s =
     (if length (takeWhile (\<lambda>c. c = CHR ''\<newline>'') s) \<ge> 3
      then Some (''\<newline>\<newline>'', dropWhile (\<lambda>c. c = CHR ''\<newline>'') s)
      else None)"

definition preprocessContent :: "string \<Rightarrow> TFile \<Rightarrow> string" where
  "preprocessContent raw f =
     (let content = replace_first m_frontmatter True raw;
          content = replace_all m_code_block True content;
          content = replace_all m_inline_code True content;
          content = replace_all m_header True content;
          content = replace_all m_link True content;
          content = replace_all m_image True content;
          content = replace_all (m_emphasis ''**'' CHR ''*'') True content;
          content = replace_all (m_emphasis ''*'' CHR ''*'') True content;
          content = replace_all (m_emphasis ''__'' CHR ''_'') True content;
          content = replace_all (m_emphasis ''_'' CHR ''_'') True content;
          content = ''Title: '' @ basename f @ ''\<newline>Path: '' @ path f
                      @ ''\<newline>\<newline>'' @ content;
          content = replace_all m_newlines True content;
          content = trim content
      in content)"

subsection \<open>The expressions of \<^verbatim>\<open>extractTags\<close>\<close>

text \<open>\<^verbatim>\<open>/#[\w-]+/g\<close>.\<close>

definition m_hashtag :: matcher where
  "m_hashtag bol s =
     (case s of
        [] \<Rightarrow> None
      | c # r \<Rightarrow>
          if c = CHR ''#'' \<and> takeWhile (\<lambda>x. is_word x \<or> x = CHR ''-'') r \<noteq> []
          then Some ([], dropWhile (\<lambda>x. is_word x \<or> x = CHR ''-'') r)
          else None)"

text \<open>
  \<^verbatim>\<open>/^---\n([\s\S]*?)\n---/\<close> without the flag \<^verbatim>\<open>m\<close>: it matches at the start of the input
  only; the value is the group.
\<close>

definition frontmatter_match :: "string \<Rightarrow> string option" where
  "frontmatter_match s =
     (if prefix ''---\<newline>'' s
      then map_option fst (split_at_first ''\<newline>---'' (drop 4 s))
      else None)"

text \<open>\<^verbatim>\<open>/tags:\s*\[(.*?)\]/\<close> at one position; the value is the group.\<close>

definition m_tags :: "string \<Rightarrow> string option" where
  "m_tags s =
     (if prefix ''tags:'' s
      then let r = dropWhile is_space (drop 5 s);
               inner = takeWhile (\<lambda>c. c \<noteq> CHR '']'' \<and> \<not> is_line_terminator c) (drop 1 r);
               r' = dropWhile (\<lambda>c. c \<noteq> CHR '']'' \<and> \<not> is_line_terminator c) (drop 1 r)
           in if prefix ''['' r \<and> prefix '']'' r' then Some inner else None
      else None)"

definition extractTags :: "string \<Rightarrow> string list" where
  "extractTags content' =
     (let hashtagMatches = match_all m_hashtag True content';
          tags = map (\<lambda>tag. drop 1 tag) hashtagMatches;
          tags =
            (case frontmatter_match content' of
               None \<Rightarrow> tags
             | Some frontmatter \<Rightarrow>
                 (case search_first m_tags frontmatter of
                    None \<Rightarrow> tags
                  | Some inner \<Rightarrow>
                      tags @ map (\<lambda>t. filter (\<lambda>c. c \<noteq> CHR 0x27 \<and> c \<noteq> CHR 0x22) (trim t))
                                 (split CHR '','' inner)))
      in Set_values tags)"

section \<open>The embedding service (\<^verbatim>\<open>GeminiService\<close>)\<close>

text \<open>
  The provider is the call \<^verbatim>\<open>embeddingModel.embedContent(text)\<close> followed by the read of
  \<^verbatim>\<open>result.embedding.values\<close>: it returns a vector or throws. Its answer is taken to be a
  function of the text.
\<close>

record GeminiService =
  embedContent :: "string \<Rightarrow> error + number list"

definition generateEmbedding :: "GeminiService \<Rightarrow> string \<Rightarrow> error + number list" where
  "generateEmbedding g text_in =
     (let cleanText = substring (trim text_in) 0 10000
      in if cleanText = [] then Inr []
         else case embedContent g cleanText of
                Inl e \<Rightarrow> Inl EmbeddingError
              | Inr values \<Rightarrow> Inr values)"

text \<open>
  The loop of \<^verbatim>\<open>generateEmbeddings\<close> over the batches of five texts. \<^verbatim>\<open>Promise.all\<close> rejects
  when one of the calls of the batch throws; the \<^verbatim>\<open>catch\<close> then pushes one empty embedding per
  text of the batch. The delay between batches is not modelled.
\<close>

function generateEmbeddings_loop ::
    "GeminiService \<Rightarrow> string list \<Rightarrow> nat \<Rightarrow> number list list \<Rightarrow> number list list" where
  "generateEmbeddings_loop g texts i embeddings =
     (if i < length texts
      then let batch = slice texts (int i) (int (i + 5));
               batchResults = map (generateEmbedding g) batch
           in generateEmbeddings_loop g texts (i + 5)
                (if list_all (\<lambda>r. \<not> isl r) batchResults
                 then embeddings @ map projr batchResults
                 else embeddings @ map (\<lambda>t. []) batch)
      else embeddings)"
  by pat_completeness auto
termination
  by (relation "measure (\<lambda>(g, texts, i, embeddings). length texts - i)") auto

declare generateEmbeddings_loop.simps [simp del]

definition generateEmbeddings :: "GeminiService \<Rightarrow> string list \<Rightarrow> number list list" where
  "generateEmbeddings g texts = generateEmbeddings_loop g texts 0 []"

section \<open>The indexer (\<^verbatim>\<open>NoteIndexer\<close>)\<close>

record NoteIndexer =
  isIndexing :: bool
  vectorDb :: VectorDatabase

text \<open>
  \<^verbatim>\<open>processBatch\<close>: the first loop reads and preprocesses the files, skipping a file whose
  read throws; the second loop pairs the files with the embeddings by position.
  \<^verbatim>\<open>generateEmbeddings\<close> catches the provider's errors itself, so the \<^verbatim>\<open>catch\<close> around it is
  never entered.
\<close>

definition readBatch :: "vault \<Rightarrow> TFile list \<Rightarrow> string list \<times> (TFile \<times> string) list" where
  "readBatch a files =
     fold (\<lambda>f (contents, fileData).
             case cachedRead a f of
               Inl e \<Rightarrow> (contents, fileData)
             | Inr raw \<Rightarrow>
                 let processedContent = preprocessContent raw f
                 in if trim processedContent \<noteq> []
                    then (contents @ [processedContent], fileData @ [(f, processedContent)])
                    else (contents, fileData))
          files ([], [])"

definition processBatch :: "GeminiService \<Rightarrow> vault \<Rightarrow> TFile list \<Rightarrow> VectorEntry list" where
  "processBatch g a files =
     (let (contents, fileData) = readBatch a files
      in if length contents = 0 then []
         else
           let embeddings = generateEmbeddings g contents
           in fold (\<lambda>i entries.
                      let (f, processed) = fileData ! i
                      in if i < length embeddings \<and> length (embeddings ! i) > 0
                         then entries @
                                [\<lparr>entry_id = path f,
                                  embedding = embeddings ! i,
                                  content = substring processed 0 3000,
                                  title = basename f,
                                  modified = mtime f,
                                  tags = Some (extractTags processed)\<rparr>]
                         else entries)
                   [0..<length fileData] [])"

text \<open>The loop of \<^verbatim>\<open>indexAllNotes\<close> over the batches of five files.\<close>

function indexAllNotes_loop ::
    "GeminiService \<Rightarrow> vault \<Rightarrow> TFile list \<Rightarrow> nat \<Rightarrow> VectorEntry list \<Rightarrow> nat
      \<Rightarrow> VectorEntry list \<times> nat" where
  "indexAllNotes_loop g a files i entries indexed =
     (if i < length files
      then let batch = slice files (int i) (int (i + 5));
               batchEntries = processBatch g a batch
           in indexAllNotes_loop g a files (i + 5) (entries @ batchEntries)
                (indexed + length batchEntries)
      else (entries, indexed))"
  by pat_completeness auto
termination
  by (relation "measure (\<lambda>(g, a, files, i, entries, indexed). length files - i)") auto

declare indexAllNotes_loop.simps [simp del]

text \<open>
  \<^verbatim>\<open>indexAllNotes\<close> and \<^verbatim>\<open>indexModifiedNotes\<close>. The guard returns before the \<^verbatim>\<open>try\<close>; the
  \<^verbatim>\<open>finally\<close> block resets \<^verbatim>\<open>isIndexing\<close> on every path that entered the \<^verbatim>\<open>try\<close>, also when
  a store write throws. The argument \<^verbatim>\<open>showProgress\<close> selects notices only.
\<close>

definition indexAllNotes ::
    "GeminiService \<Rightarrow> vault \<Rightarrow> bool \<Rightarrow> NoteIndexer \<Rightarrow> (error + nat) \<times> NoteIndexer" where
  "indexAllNotes g a showProgress s =
     (if isIndexing s then (Inr 0, s)
      else
        let s1 = s\<lparr>isIndexing := True\<rparr>
        in case removeDeletedNotes a (vectorDb s1) of
             (Inl e, d1) \<Rightarrow> (Inl e, s1\<lparr>vectorDb := d1, isIndexing := False\<rparr>)
           | (Inr deletedCount, d1) \<Rightarrow>
               let files = getMarkdownFiles a;
                   totalFiles = length files
               in if totalFiles = 0 then (Inr 0, s1\<lparr>vectorDb := d1, isIndexing := False\<rparr>)
                  else
                    let (entries, indexed) = indexAllNotes_loop g a files 0 [] 0
                    in if length entries > 0
                       then case addVectors a entries d1 of
                              (Inl e, d2) \<Rightarrow> (Inl e, s1\<lparr>vectorDb := d2, isIndexing := False\<rparr>)
                            | (Inr u, d2) \<Rightarrow>
                                (Inr indexed, s1\<lparr>vectorDb := d2, isIndexing := False\<rparr>)
                       else (Inr indexed, s1\<lparr>vectorDb := d1, isIndexing := False\<rparr>))"

definition indexModifiedNotes ::
    "GeminiService \<Rightarrow> vault \<Rightarrow> NoteIndexer \<Rightarrow> (error + nat) \<times> NoteIndexer" where
  "indexModifiedNotes g a s =
     (if isIndexing s then (Inr 0, s)
      else
        let s1 = s\<lparr>isIndexing := True\<rparr>;
            (modifiedFiles, d1) = getModifiedNotes a (vectorDb s1)
        in if length modifiedFiles = 0 then (Inr 0, s1\<lparr>vectorDb := d1, isIndexing := False\<rparr>)
           else
             let entries = processBatch g a modifiedFiles
             in if length entries > 0
                then case addVectors a entries d1 of
                       (Inl e, d2) \<Rightarrow> (Inl e, s1\<lparr>vectorDb := d2, isIndexing := False\<rparr>)
                     | (Inr u, d2) \<Rightarrow>
                         (Inr (length entries), s1\<lparr>vectorDb := d2, isIndexing := False\<rparr>)
                else (Inr 0, s1\<lparr>vectorDb := d1, isIndexing := False\<rparr>))"

definition indexSingleNote ::
    "GeminiService \<Rightarrow> vault \<Rightarrow> TFile \<Rightarrow> NoteIndexer \<Rightarrow> bool \<times> NoteIndexer" where
  "indexSingleNote g a f s =
     (case processBatch g a [f] of
        [] \<Rightarrow> (False, s)
      | entry # rest \<Rightarrow>
          (case addVector a entry (vectorDb s) of
             (Inl e, d1) \<Rightarrow> (False, s\<lparr>vectorDb := d1\<rparr>)
           | (Inr u, d1) \<Rightarrow> (True, s\<lparr>vectorDb := d1\<rparr>)))"

section \<open>Notions used to state the properties\<close>

text \<open>The sums that the loop of \<^verbatim>\<open>cosineSimilarity\<close> accumulates.\<close>

definition dot :: "number list \<Rightarrow> number list \<Rightarrow> number" where
  "dot a b = (\<Sum>i<length a. a ! i * b ! i)"




text \<open>
  The ids of the live documents, and the stored ids (after the lazy load) that are not among
  them, in the iteration order of the map.
\<close>

definition live_paths :: "vault \<Rightarrow> string set" where
  "live_paths a = set (map path (getMarkdownFiles a))"

definition orphans :: "vault \<Rightarrow> VectorDatabase \<Rightarrow> string list" where
  "orphans a s = filter (\<lambda>i. i \<notin> live_paths a) (Map_keys (db (ensureLoaded a s)))"

text \<open>
  The batches of at most \<open>n\<close> consecutive elements that the loops of the indexer and of the
  embedding service cut a list into, and the embeddings that one batch of texts contributes.
\<close>

function batches :: "nat \<Rightarrow> 'a list \<Rightarrow> 'a list list" where
  "batches n xs = (if n = 0 \<or> xs = [] then [] else take n xs # batches n (drop n xs))"
  by pat_completeness auto
termination
  by (relation "measure (\<lambda>(n, xs). length xs)") auto

declare batches.simps [simp del]

definition embed_batch :: "GeminiService \<Rightarrow> string list \<Rightarrow> number list list" where
  "embed_batch g batch =
     (if list_all (\<lambda>r. \<not> isl r) (map (generateEmbedding g) batch)
      then map projr (map (generateEmbedding g) batch)
      else map (\<lambda>t. []) batch)"

text \<open>
  One step of the first loop of \<^verbatim>\<open>processBatch\<close>, the entry that its second loop builds at
  index \<open>i\<close>, and the entries that the loop of \<^verbatim>\<open>indexAllNotes\<close> accumulates over the vault.
\<close>

definition read_step :: "vault \<Rightarrow> TFile \<Rightarrow> string list \<times> (TFile \<times> string) list
    \<Rightarrow> string list \<times> (TFile \<times> string) list" where
  "read_step a f acc =
     (case cachedRead a f of
        Inl e \<Rightarrow> acc
      | Inr raw \<Rightarrow>
          if trim (preprocessContent raw f) \<noteq> []
          then (fst acc @ [preprocessContent raw f], snd acc @ [(f, preprocessContent raw f)])
          else acc)"

definition entry_at :: "(TFile \<times> string) list \<Rightarrow> number list list \<Rightarrow> nat \<Rightarrow> VectorEntry" where
  "entry_at fileData embeddings i =
     \<lparr>entry_id = path (fst (fileData ! i)),
      embedding = embeddings ! i,
      content = substring (snd (fileData ! i)) 0 3000,
      title = basename (fst (fileData ! i)),
      modified = mtime (fst (fileData ! i)),
      tags = Some (extractTags (snd (fileData ! i)))\<rparr>"

definition indexed_entries :: "GeminiService \<Rightarrow> vault \<Rightarrow> VectorEntry list" where
  "indexed_entries g a = concat (map (processBatch g a) (batches 5 (getMarkdownFiles a)))"

text \<open>
  The header that \<^verbatim>\<open>preprocessContent\<close> synthesizes, and the text that its replacements of
  markdown syntax leave.
\<close>

definition header :: "TFile \<Rightarrow> string" where
  "header f = ''Title: '' @ basename f @ ''\<newline>Path: '' @ path f"

definition markdown_stripped :: "string \<Rightarrow> string" where
  "markdown_stripped raw =
     replace_all (m_emphasis ''_'' CHR ''_'') True
       (replace_all (m_emphasis ''__'' CHR ''_'') True
         (replace_all (m_emphasis ''*'' CHR ''*'') True
           (replace_all (m_emphasis ''**'' CHR ''*'') True
             (replace_all m_image True
               (replace_all m_link True
                 (replace_all m_header True
                   (replace_all m_inline_code True
                     (replace_all m_code_block True
                       (replace_first m_frontmatter True raw)))))))))"

subsection \<open>Concrete inputs\<close>

definition example_entry :: "string \<Rightarrow> number list \<Rightarrow> number \<Rightarrow> VectorEntry" where
  "example_entry i v t =
     \<lparr>entry_id = i, embedding = v, content = [], title = i, modified = t, tags = None\<rparr>"

definition example_db :: "(string, VectorEntry) js_map" where
  "example_db =
     [(''a.md'', example_entry ''a.md'' [1] 10),
      (''b.md'', example_entry ''b.md'' [2] 20),
      (''c.md'', example_entry ''c.md'' [] 30),
      (''d.md'', example_entry ''d.md'' [-1] 40)]"

definition example_store :: VectorDatabase where
  "example_store = \<lparr>db = example_db, loaded = True, disk = None, writes = 0\<rparr>"

text \<open>The markdown file of a given name at the root of the vault.\<close>

definition example_file :: "string \<Rightarrow> number \<Rightarrow> TFile" where
  "example_file name t = \<lparr>path = name @ ''.md'', basename = name, mtime = t\<rparr>"

definition example_vault :: "TFile list \<Rightarrow> vault" where
  "example_vault files =
     \<lparr>read_ok = True, write_ok = True, getMarkdownFiles = files, cachedRead = (\<lambda>f. Inr [])\<rparr>"


definition busy_indexer :: NoteIndexer where
  "busy_indexer = \<lparr>isIndexing = True, vectorDb = example_store\<rparr>"

definition example_service :: GeminiService where
  "example_service =
     \<lparr>embedContent = (\<lambda>t. if t = ''Title: bad\<newline>Path: bad.md'' then Inl EmbeddingError
                            else Inr [1])\<rparr>"

definition first_batch :: "TFile list" where
  "first_batch = [example_file ''a'' 1, example_file ''bad'' 2, example_file ''c'' 3,
                  example_file ''d'' 4, example_file ''e'' 5]"

definition six_notes :: vault where
  "six_notes = example_vault (first_batch @ [example_file ''z'' 6])"


text \<open>
  A note that declares two tags in its front matter and one as a hashtag, and a vault that
  reads this text for every file.
\<close>

definition tagged_note :: string where
  "tagged_note = ''---\<newline>tags: [alpha, beta]\<newline>---\<newline>Body #x''"

definition tagged_vault :: vault where
  "tagged_vault =
     \<lparr>read_ok = True, write_ok = True, getMarkdownFiles = [example_file ''a'' 1],
      cachedRead = (\<lambda>f. Inr tagged_note)\<rparr>"

section \<open>Properties of the store\<close>




lemma flush_db: "db (snd (flush a s r)) = db s"
  by (simp add: flush_def saveDatabase_def)



subsection \<open>Loops of the store as list functions\<close>

lemma Map_delete_filter: "Map_delete m k = filter (\<lambda>(k', v). k' \<noteq> k) m"
  by (induction m) auto

lemma fold_Map_delete:
  "fold (\<lambda>i m. Map_delete m i) ks m = filter (\<lambda>(k, v). k \<notin> set ks) m"
proof (induction ks arbitrary: m)
  case Nil
  then show ?case by simp
next
  case (Cons k ks)
  have "filter (\<lambda>(k', v). k' \<notin> set ks) (filter (\<lambda>(k', v). k' \<noteq> k) m)
      = filter (\<lambda>(k', v). k' \<notin> set (k # ks)) m"
    by (induction m) auto
  with Cons show ?case by (simp add: Map_delete_filter)
qed

lemma Map_get_filter:
  "Map_get (filter (\<lambda>(k, v). P k) m) i = (if P i then Map_get m i else None)"
  by (induction m) auto

lemma toDelete_filter:
  "fold (\<lambda>i toDelete. if i \<notin> S then toDelete @ [i] else toDelete) ks acc
     = acc @ filter (\<lambda>i. i \<notin> S) ks"
  by (induction ks arbitrary: acc) auto

lemma filter_not_deleted:
  "filter (\<lambda>(k, v). k \<notin> set (filter (\<lambda>i. i \<notin> S) (map fst m))) m = filter (\<lambda>(k, e). k \<in> S) m"
  by (rule filter_cong) force+

lemma unchanged_without_orphans:
  assumes "orphans a s = []"
  shows "filter (\<lambda>(k, e). k \<in> live_paths a) (db (ensureLoaded a s)) = db (ensureLoaded a s)"
proof -
  from assms have "\<forall>k\<in>set (map fst (db (ensureLoaded a s))). k \<in> live_paths a"
    by (simp add: orphans_def Map_keys_def filter_empty_conv)
  then show ?thesis
    by (intro filter_True) force
qed

lemma removeDeletedNotes_unfold:
  "removeDeletedNotes a s =
     (let s2 = (ensureLoaded a s)\<lparr>db := filter (\<lambda>(k, e). k \<in> live_paths a) (db (ensureLoaded a s))\<rparr>
      in if orphans a s \<noteq> [] then flush a s2 (length (orphans a s))
         else (Inr (length (orphans a s)), s2))"
proof -
  have "filter (\<lambda>(k, v). k \<notin> set (orphans a s)) (db (ensureLoaded a s))
      = filter (\<lambda>(k, e). k \<in> live_paths a) (db (ensureLoaded a s))"
    unfolding orphans_def Map_keys_def by (rule filter_not_deleted)
  then show ?thesis
    unfolding removeDeletedNotes_def Let_def toDelete_filter fold_Map_delete
      live_paths_def[symmetric] append_Nil orphans_def[symmetric]
    by (simp add: unchanged_without_orphans)
qed

lemma removeDeletedNotes_db:
  "db (snd (removeDeletedNotes a s))
     = filter (\<lambda>(k, e). k \<in> live_paths a) (db (ensureLoaded a s))"
  by (simp add: removeDeletedNotes_unfold Let_def flush_db)

lemma removeDeletedNotes_result:
  "fst (removeDeletedNotes a s) =
     (if orphans a s \<noteq> [] \<and> \<not> write_ok a then Inl SaveError
      else Inr (length (orphans a s)))"
  by (simp add: removeDeletedNotes_unfold Let_def flush_def saveDatabase_def)

lemma removeDeletedNotes_noop:
  "orphans a s = [] \<Longrightarrow> removeDeletedNotes a s = (Inr 0, ensureLoaded a s)"
  by (simp add: removeDeletedNotes_unfold Let_def unchanged_without_orphans)

lemma length_orphans:
  "length (orphans a s) =
     Map_size (db (ensureLoaded a s)) - Map_size (db (snd (removeDeletedNotes a s)))"
proof -
  let ?m = "db (ensureLoaded a s)"
  have "length (filter (\<lambda>i. i \<notin> live_paths a) (map fst ?m))
      = length (filter (\<lambda>(k, e). k \<notin> live_paths a) ?m)"
    by (simp add: filter_map comp_def case_prod_unfold)
  moreover have "length (filter (\<lambda>(k, e). k \<notin> live_paths a) ?m)
      + length (filter (\<lambda>(k, e). k \<in> live_paths a) ?m) = length ?m"
    using sum_length_filter_compl[of "\<lambda>(k, e). k \<notin> live_paths a" ?m]
    by (simp add: case_prod_unfold)
  ultimately show ?thesis
    by (simp add: orphans_def Map_keys_def Map_size_def removeDeletedNotes_db)
qed

lemma modifiedFiles_filter:
  "fold (\<lambda>f modifiedFiles. case Map_get m (path f) of None \<Rightarrow> modifiedFiles @ [f]
            | Some entry \<Rightarrow> if mtime f > modified entry then modifiedFiles @ [f] else modifiedFiles) fs acc
        = acc @ filter (\<lambda>f. case Map_get m (path f) of
                    None \<Rightarrow> True | Some entry \<Rightarrow> modified entry < mtime f) fs"
  by (induction fs arbitrary: acc) (auto split: option.splits)

subsection \<open>Concrete store\<close>

lemma ensureLoaded_example: "ensureLoaded a example_store = example_store"
  by (simp add: ensureLoaded_def example_store_def)

lemma db_example_store: "db example_store = example_db"
  by (simp add: example_store_def)

subsection \<open>Purging and staleness\<close>

text \<open>
  C6 (\<^verbatim>\<open>removeDeletedNotes\<close>). After the call the map holds exactly the entries whose id is
  the path of a live document: a lookup of a live id gives what it gave before, a lookup of any
  other id finds nothing, and the remaining entries keep their order. The value returned is
  the number of stored ids that were not live, which is the number by which the map shrank; the
  call throws instead only when something was removed and the flush fails. When no stored id is
  orphaned the call returns 0 and leaves the state (map, file and count of writes) as the lazy
  load left it: there is no flush.
\<close>

theorem removeDeletedNotes_exact:
  "(\<forall>i. Map_get (db (snd (removeDeletedNotes a s))) i
          = (if i \<in> live_paths a then Map_get (db (ensureLoaded a s)) i else None))
   \<and> db (snd (removeDeletedNotes a s))
       = filter (\<lambda>(i, e). i \<in> live_paths a) (db (ensureLoaded a s))
   \<and> fst (removeDeletedNotes a s)
       = (if orphans a s \<noteq> [] \<and> \<not> write_ok a then Inl SaveError
          else Inr (length (orphans a s)))
   \<and> length (orphans a s)
       = Map_size (db (ensureLoaded a s)) - Map_size (db (snd (removeDeletedNotes a s)))
   \<and> (orphans a s = [] \<longrightarrow> removeDeletedNotes a s = (Inr 0, ensureLoaded a s))"
  using removeDeletedNotes_db[of a s] removeDeletedNotes_result[of a s] length_orphans[of a s]
    removeDeletedNotes_noop[of a s]
  by (simp add: Map_get_filter)

theorem removeDeletedNotes_exact_witness:
  "orphans (example_vault [example_file ''a'' 10, example_file ''b'' 20,
              example_file ''c'' 30, example_file ''d'' 40, example_file ''e'' 50])
           example_store = []
   \<and> removeDeletedNotes
        (example_vault [example_file ''a'' 10, example_file ''b'' 20,
              example_file ''c'' 30, example_file ''d'' 40, example_file ''e'' 50])
        example_store = (Inr 0, example_store)"
  using removeDeletedNotes_exact[of
      "example_vault [example_file ''a'' 10, example_file ''b'' 20,
              example_file ''c'' 30, example_file ''d'' 40, example_file ''e'' 50]"
      example_store]
  by (simp add: orphans_def live_paths_def ensureLoaded_example db_example_store example_db_def
      example_vault_def example_file_def Map_keys_def)

text \<open>
  The scenario of the specification: with live documents \<open>a.md\<close> and \<open>e.md\<close>, the purge
  removes \<open>b.md\<close>, \<open>c.md\<close> and \<open>d.md\<close> from the example store, flushes once and returns 3.
\<close>

lemma removeDeletedNotes_example:
  "removeDeletedNotes (example_vault [example_file ''a'' 10, example_file ''e'' 50])
     example_store
   = (Inr 3, \<lparr>db = [(''a.md'', example_entry ''a.md'' [1] 10)], loaded = True,
              disk = Some (Vectors [example_entry ''a.md'' [1] 10]), writes = 1\<rparr>)"
  by (simp add: removeDeletedNotes_def ensureLoaded_def example_store_def example_db_def
      example_vault_def example_file_def Map_keys_def Map_values_def flush_def saveDatabase_def)

text \<open>
  C8 (\<^verbatim>\<open>getModifiedNotes\<close>). The files returned are, in the order of
  \<^verbatim>\<open>getMarkdownFiles()\<close>, exactly the live documents whose path has no entry in the store or
  whose modification time is strictly greater than the \<open>modified\<close> of the stored entry; every
  live document is examined.
\<close>

theorem getModifiedNotes_exact:
  "fst (getModifiedNotes a s) =
     filter (\<lambda>f. case Map_get (db (ensureLoaded a s)) (path f) of
                    None \<Rightarrow> True
                  | Some entry \<Rightarrow> modified entry < mtime f)
            (getMarkdownFiles a)"
  by (simp add: getModifiedNotes_def Let_def modifiedFiles_filter)

lemma getModifiedNotes_example:
  "fst (getModifiedNotes
          (example_vault [example_file ''a'' 10, example_file ''b'' 21,
                          example_file ''e'' 5])
          example_store)
   = [example_file ''b'' 21, example_file ''e'' 5]"
  by (simp add: getModifiedNotes_def ensureLoaded_def example_store_def example_db_def
      example_vault_def example_file_def example_entry_def)

section \<open>Properties of similarity and search\<close>

subsection \<open>Cosine similarity\<close>

lemma cosine_loop:
  "fold (\<lambda>i (dotProduct, normA, normB).
            (dotProduct + a ! i * b ! i, normA + a ! i * a ! i, normB + b ! i * b ! i))
        [0..<n] (d, na, nb)
   = (d + (\<Sum>i<n. a ! i * b ! i), na + (\<Sum>i<n. a ! i * a ! i), nb + (\<Sum>i<n. b ! i * b ! i))"
  by (induction n) (simp_all add: algebra_simps)

lemma cosineSimilarity_dot:
  "cosineSimilarity a b =
     (if length a \<noteq> length b then 0
      else if dot a a = 0 \<or> dot b b = 0 then 0
      else dot a b / (sqrt (dot a a) * sqrt (dot b b)))"
  by (simp add: cosineSimilarity_def cosine_loop dot_def)

lemma dot_commute: "length a = length b \<Longrightarrow> dot a b = dot b a"
  by (simp add: dot_def mult.commute)

lemma dot_self_zero_iff: "dot a a = 0 \<longleftrightarrow> (\<forall>x\<in>set a. x = 0)"
proof -
  have "dot a a = 0 \<longleftrightarrow> (\<forall>i\<in>{..<length a}. a ! i * a ! i = 0)"
    unfolding dot_def by (rule sum_nonneg_eq_0_iff) simp_all
  also have "\<dots> \<longleftrightarrow> (\<forall>x\<in>set a. x = 0)"
    by (force simp: in_set_conv_nth)
  finally show ?thesis .
qed

lemma dot_self_nonneg: "0 \<le> dot a a"
  unfolding dot_def by (rule sum_nonneg) simp


text \<open>
  Cosine similarity in exact real arithmetic (the reading of C2 over the reals). The similarity
  is symmetric; the similarity of a vector with itself is 1 when the vector has a component
  other than 0; and the similarity is 0 when the lengths differ or when every component of one
  of the vectors is 0. Symmetry and the two cases of 0 rest on the length test, the test of the
  norms against 0 and the commutativity of the product only. That the similarity of a vector
  with itself is 1 rests on \<open>sqrt n * sqrt n = n\<close>, which the rounded arithmetic of the
  program does not satisfy: this statement is about the reals, not about IEEE doubles.
\<close>

lemma cosineSimilarity_over_reals:
  "cosineSimilarity a b = cosineSimilarity b a
   \<and> ((\<exists>x\<in>set a. x \<noteq> 0) \<longrightarrow> cosineSimilarity a a = 1)
   \<and> (length a \<noteq> length b \<or> (\<forall>x\<in>set a. x = 0) \<or> (\<forall>x\<in>set b. x = 0)
        \<longrightarrow> cosineSimilarity a b = 0)"
proof (intro conjI impI)
  show "cosineSimilarity a b = cosineSimilarity b a"
    by (cases "length a = length b") (auto simp: cosineSimilarity_dot dot_commute mult.commute)
next
  assume "\<exists>x\<in>set a. x \<noteq> 0"
  then have nz: "dot a a \<noteq> 0" by (simp add: dot_self_zero_iff)
  have "sqrt (dot a a) * sqrt (dot a a) = dot a a"
    using dot_self_nonneg[of a] by simp
  with nz show "cosineSimilarity a a = 1"
    by (simp add: cosineSimilarity_dot)
next
  assume "length a \<noteq> length b \<or> (\<forall>x\<in>set a. x = 0) \<or> (\<forall>x\<in>set b. x = 0)"
  then show "cosineSimilarity a b = 0"
    by (auto simp: cosineSimilarity_dot dot_self_zero_iff)
qed

lemma cosineSimilarity_over_reals_example:
  "[3, 4::real] ! 0 \<noteq> 0 \<and> length [3, 4::real] = length [0, 0::real]
   \<and> cosineSimilarity [3, 4] [0, 0] = cosineSimilarity [0, 0] [3, 4]
   \<and> cosineSimilarity [3, 4] [3, 4] = 1
   \<and> cosineSimilarity [3, 4] [0, 0] = 0"
  using cosineSimilarity_over_reals[of "[3, 4]" "[0, 0]"] by simp

lemma cosineSimilarity_length_mismatch_example: "cosineSimilarity [1, 2] [1, 2, 3] = 0"
  by (simp add: cosineSimilarity_def)

subsection \<open>The sort and the slice\<close>













subsection \<open>Search\<close>



lemma search_state: "snd (search a q k s) = ensureLoaded a s"
  by (simp add: search_def Let_def)
















section \<open>Properties of the indexer\<close>

subsection \<open>The loops over batches\<close>

lemma slice_nat: "slice xs (int i) (int j) = take (j - i) (drop i xs)"
proof (cases "i \<le> length xs")
  case True
  then show ?thesis
    by (auto simp: slice_def slice_bound_def min_def)
next
  case False
  then show ?thesis
    by (simp add: slice_def slice_bound_def)
qed

lemma slice_batch: "slice xs (int i) (int i + 5) = take 5 (drop i xs)"
  using slice_nat[of xs i "i + 5"] by simp

lemma batches_Nil: "batches n [] = []"
  by (simp add: batches.simps)

lemma batches_step: "0 < n \<Longrightarrow> xs \<noteq> [] \<Longrightarrow> batches n xs = take n xs # batches n (drop n xs)"
  by (subst batches.simps) simp


lemma concat_batches: "0 < n \<Longrightarrow> concat (batches n xs) = xs"
proof (induction n xs rule: batches.induct)
  case (1 n xs)
  show ?case
  proof (cases "xs = []")
    case True
    then show ?thesis by (simp add: batches_Nil)
  next
    case False
    with 1 show ?thesis by (simp add: batches_step)
  qed
qed

lemma batches_append:
  "0 < n \<Longrightarrow> length pre mod n = 0 \<Longrightarrow> batches n (pre @ rest) = batches n pre @ batches n rest"
proof (induction n pre rule: batches.induct)
  case (1 n pre)
  show ?case
  proof (cases "pre = []")
    case True
    then show ?thesis by (simp add: batches_Nil)
  next
    case False
    from 1(3) False have len: "n \<le> length pre"
      using "1.prems"(1) by (metis length_0_conv mod_less not_le_imp_less)
    have "(length pre - n) mod n = 0"
      using 1(3) len by (simp add: mod_eq_0_iff_dvd)
    then have "batches n (drop n pre @ rest) = batches n (drop n pre) @ batches n rest"
      using 1(1)[of] False "1.prems"(1) by simp
    with False len "1.prems"(1) show ?thesis
      by (simp add: batches_step)
  qed
qed

lemma length_embed_batch: "length (embed_batch g batch) = length batch"
  by (simp add: embed_batch_def)

lemma generateEmbeddings_loop_step:
  "i < length texts \<Longrightarrow>
     generateEmbeddings_loop g texts i embeddings
       = generateEmbeddings_loop g texts (i + 5) (embeddings @ embed_batch g (take 5 (drop i texts)))"
  by (subst generateEmbeddings_loop.simps, unfold Let_def) (simp add: slice_batch embed_batch_def)

lemma generateEmbeddings_loop_done:
  "\<not> i < length texts \<Longrightarrow> generateEmbeddings_loop g texts i embeddings = embeddings"
  by (subst generateEmbeddings_loop.simps) simp

lemma generateEmbeddings_loop_batches:
  "generateEmbeddings_loop g texts i embeddings
     = embeddings @ concat (map (embed_batch g) (batches 5 (drop i texts)))"
proof (induction "length texts - i" arbitrary: i embeddings rule: less_induct)
  case less
  show ?case
  proof (cases "i < length texts")
    case True
    then have "drop i texts \<noteq> []" by simp
    then have b: "batches 5 (drop i texts) = take 5 (drop i texts) # batches 5 (drop (i + 5) texts)"
      by (simp add: batches_step add.commute)
    from True have "length texts - (i + 5) < length texts - i" by simp
    from less[OF this] show ?thesis
      by (simp add: generateEmbeddings_loop_step[OF True] b)
  next
    case False
    then show ?thesis
      by (simp add: generateEmbeddings_loop_done batches_Nil)
  qed
qed

lemma generateEmbeddings_batches:
  "generateEmbeddings g texts = concat (map (embed_batch g) (batches 5 texts))"
  by (simp add: generateEmbeddings_def generateEmbeddings_loop_batches)

lemma length_concat_embed:
  "length (concat (map (embed_batch g) (batches n xs))) = length (concat (batches n xs))"
  by (induction n xs rule: batches.induct)
     (subst (1 2) batches.simps, simp add: length_embed_batch)

lemma length_generateEmbeddings: "length (generateEmbeddings g texts) = length texts"
  by (simp add: generateEmbeddings_batches length_concat_embed concat_batches)




subsection \<open>One batch\<close>

lemma push_loop:
  "fold (\<lambda>i entries. if C i then entries @ [mk i] else entries) is acc
     = acc @ map mk (filter C is)"
  by (induction "is" arbitrary: acc) auto

lemma entries_loop:
  "fold (\<lambda>i entries.
           case fileData ! i of
             (f, processed) \<Rightarrow>
               if i < length E \<and> 0 < length (E ! i)
               then entries @
                      [\<lparr>entry_id = path f, embedding = E ! i,
                        content = substring processed 0 3000, title = basename f,
                        modified = mtime f, tags = Some (extractTags processed)\<rparr>]
               else entries) is acc
   = acc @ map (entry_at fileData E) (filter (\<lambda>i. i < length E \<and> E ! i \<noteq> []) is)"
  by (induction "is" arbitrary: acc) (auto simp: entry_at_def case_prod_beta)

lemma processBatch_unfold:
  "processBatch g a files =
     (if fst (readBatch a files) = [] then []
      else map (entry_at (snd (readBatch a files)) (generateEmbeddings g (fst (readBatch a files))))
             (filter (\<lambda>i. i < length (generateEmbeddings g (fst (readBatch a files)))
                        \<and> generateEmbeddings g (fst (readBatch a files)) ! i \<noteq> [])
                     [0..<length (snd (readBatch a files))]))"
proof -
  obtain contents fileData where rb: "readBatch a files = (contents, fileData)"
    by (cases "readBatch a files")
  show ?thesis
    unfolding processBatch_def rb Let_def prod.case entries_loop
    by simp
qed

lemma readBatch_fold: "readBatch a files = fold (read_step a) files ([], [])"
proof -
  have "(\<lambda>f (contents, fileData).
             case cachedRead a f of
               Inl e \<Rightarrow> (contents, fileData)
             | Inr raw \<Rightarrow>
                 let processedContent = preprocessContent raw f
                 in if trim processedContent \<noteq> []
                    then (contents @ [processedContent], fileData @ [(f, processedContent)])
                    else (contents, fileData)) = read_step a"
    by (intro ext) (simp add: read_step_def Let_def split: sum.splits prod.splits)
  then show ?thesis by (simp add: readBatch_def)
qed






subsection \<open>A full run\<close>




lemma indexed_entries_Nil: "getMarkdownFiles a = [] \<Longrightarrow> indexed_entries g a = []"
  by (simp add: indexed_entries_def batches_Nil)




lemma indexed_entries_skip:
  assumes "length pre mod 5 = 0" "length batch = 5" "processBatch g a batch = []"
    and "getMarkdownFiles a = pre @ batch @ post"
  shows "indexed_entries g a
     = concat (map (processBatch g a) (batches 5 pre)) @ concat (map (processBatch g a) (batches 5 post))"
proof -
  have "batches 5 (pre @ batch @ post) = batches 5 pre @ batches 5 (batch @ post)"
    using assms(1) by (simp add: batches_append)
  moreover have "batches 5 (batch @ post) = batch # batches 5 post"
    using assms(2) by (cases batch) (simp_all add: batches_step)
  ultimately show ?thesis
    by (simp add: indexed_entries_def assms(3,4))
qed

subsection \<open>A run over six notes\<close>










subsection \<open>Single flight and provider failures\<close>

text \<open>
  C4 (single-flight guard). When \<^verbatim>\<open>isIndexing\<close> is set, that is while a run is in progress,
  \<^verbatim>\<open>indexAllNotes\<close> returns 0 at once: it returns a value and not an error, and the state of the
  indexer, the store with its map and its file included, is what it was.
\<close>

theorem indexAllNotes_single_flight:
  "isIndexing s \<Longrightarrow> indexAllNotes g a showProgress s = (Inr 0, s)"
  by (simp add: indexAllNotes_def)

theorem indexAllNotes_single_flight_witness:
  "isIndexing busy_indexer
   \<and> indexAllNotes example_service six_notes True busy_indexer = (Inr 0, busy_indexer)"
proof -
  have busy: "isIndexing busy_indexer" by (simp add: busy_indexer_def)
  from busy indexAllNotes_single_flight[OF busy] show ?thesis by simp
qed



section \<open>Properties of the text processing\<close>

subsection \<open>Trimming\<close>

lemma trim_Cons:
  "\<not> is_space c \<Longrightarrow> trim (c # s) = c # rev (dropWhile is_space (rev s)) \<or> trim (c # s) = [c]"
  by (simp add: trim_def dropWhile_append)

lemma trim_Cons_nonempty: "\<not> is_space c \<Longrightarrow> trim (c # s) \<noteq> []"
  using trim_Cons[of c s] by auto

lemma trim_keeps_prefix:
  assumes "h \<noteq> []" "\<not> is_space (hd h)" "\<not> is_space (last h)"
  shows "prefix h (trim (h @ s))"
proof -
  from assms obtain c h' where h: "h = c # h'" and c: "\<not> is_space c"
    by (cases h) auto
  have "dropWhile is_space (rev s @ rev h) = dropWhile is_space (rev s) @ rev h
      \<or> dropWhile is_space (rev s @ rev h) = rev h"
  proof (cases "\<forall>x\<in>set (rev s). is_space x")
    case True
    then have "dropWhile is_space (rev s @ rev h) = dropWhile is_space (rev h)"
      by (intro dropWhile_append2) auto
    moreover have "dropWhile is_space (rev h) = rev h"
      using assms(1,3) by (cases "rev h") (auto simp: last_rev hd_rev)
    ultimately show ?thesis by simp
  next
    case False
    then show ?thesis by (auto simp: dropWhile_append1)
  qed
  then have "trim (h @ s) = h @ rev (dropWhile is_space (rev s)) \<or> trim (h @ s) = h"
    using c by (auto simp: trim_def h)
  then show ?thesis by auto
qed

subsection \<open>Collapsing newlines\<close>

lemma m_newlines_Some:
  "m_newlines bol s = Some (out, rest) \<Longrightarrow>
     out = ''\<newline>\<newline>'' \<and> rest = dropWhile (\<lambda>c. c = CHR ''\<newline>'') s \<and> length rest < length s
     \<and> 3 \<le> length (takeWhile (\<lambda>c. c = CHR ''\<newline>'') s)"
proof -
  assume a: "m_newlines bol s = Some (out, rest)"
  then have l: "3 \<le> length (takeWhile (\<lambda>c. c = CHR ''\<newline>'') s)"
    by (simp add: m_newlines_def split: if_splits)
  have "length s = length (takeWhile (\<lambda>c. c = CHR ''\<newline>'') s)
      + length (dropWhile (\<lambda>c. c = CHR ''\<newline>'') s)"
    by (metis length_append takeWhile_dropWhile_id)
  with a l show ?thesis by (auto simp: m_newlines_def split: if_splits)
qed

lemma m_newlines_copy: "c \<noteq> CHR ''\<newline>'' \<Longrightarrow> m_newlines bol (c # s) = None"
  by (simp add: m_newlines_def)

lemma replace_newlines_Cons:
  "c \<noteq> CHR ''\<newline>'' \<Longrightarrow>
     replace_all m_newlines bol (c # s) = c # replace_all m_newlines (is_line_terminator c) s"
  by (subst replace_all.simps) (simp add: m_newlines_copy)

lemma replace_newlines_bol:
  "replace_all m_newlines bol s = replace_all m_newlines bol' s"
proof (induction "length s" arbitrary: s bol bol' rule: less_induct)
  case less
  have same: "m_newlines bol s = m_newlines bol' s" by (simp add: m_newlines_def)
  show ?case
  proof (cases "m_newlines bol' s")
    case None
    show ?thesis
    proof (cases s)
      case Nil
      with None same show ?thesis
        by (subst (1 2) replace_all.simps) simp
    next
      case (Cons c cs)
      with None same less[of cs] show ?thesis
        by (subst (1 2) replace_all.simps) simp
    qed
  next
    case (Some r)
    obtain out rest where r: "r = (out, rest)" by (cases r)
    from m_newlines_Some[OF Some[unfolded r]] have lt: "length rest < length s" by blast
    have "replace_all m_newlines bol s
        = out @ replace_all m_newlines (ends_line (take (length s - length rest) s)) rest"
      using Some same r lt by (subst replace_all.simps) simp
    moreover have "replace_all m_newlines bol' s
        = out @ replace_all m_newlines (ends_line (take (length s - length rest) s)) rest"
      using Some r lt by (subst replace_all.simps) simp
    ultimately show ?thesis by simp
  qed
qed

lemma replace_newlines_copy:
  "CHR ''\<newline>'' \<notin> set xs \<Longrightarrow>
     replace_all m_newlines bol (xs @ s) = xs @ replace_all m_newlines bol s"
proof (induction xs arbitrary: bol)
  case Nil
  then show ?case by simp
next
  case (Cons c xs)
  from Cons.prems have c: "c \<noteq> CHR ''\<newline>''" by auto
  then have "replace_all m_newlines bol ((c # xs) @ s)
      = c # replace_all m_newlines (is_line_terminator c) (xs @ s)"
    by (simp add: replace_newlines_Cons)
  also have "\<dots> = c # xs @ replace_all m_newlines (is_line_terminator c) s"
    using Cons by simp
  also have "\<dots> = (c # xs) @ replace_all m_newlines bol s"
    using replace_newlines_bol[of "is_line_terminator c" s bol] by simp
  finally show ?case .
qed

lemma replace_newlines_single:
  "c \<noteq> CHR ''\<newline>'' \<Longrightarrow>
     replace_all m_newlines bol (CHR ''\<newline>'' # c # s)
       = CHR ''\<newline>'' # replace_all m_newlines bol (c # s)"
proof -
  assume c: "c \<noteq> CHR ''\<newline>''"
  then have "m_newlines bol (CHR ''\<newline>'' # c # s) = None"
    by (simp add: m_newlines_def)
  then have "replace_all m_newlines bol (CHR ''\<newline>'' # c # s)
      = CHR ''\<newline>'' # replace_all m_newlines (is_line_terminator CHR ''\<newline>'') (c # s)"
    by (subst replace_all.simps) simp
  then show ?thesis
    using replace_newlines_bol[of "is_line_terminator CHR ''\<newline>''" "c # s" bol] by simp
qed

lemma replace_newlines_keeps:
  "filter (\<lambda>c. c \<noteq> CHR ''\<newline>'') (replace_all m_newlines bol s)
     = filter (\<lambda>c. c \<noteq> CHR ''\<newline>'') s"
proof (induction "length s" arbitrary: s bol rule: less_induct)
  case less
  show ?case
  proof (cases "m_newlines bol s")
    case None
    show ?thesis
    proof (cases s)
      case Nil
      with None show ?thesis by (subst replace_all.simps) simp
    next
      case (Cons c cs)
      with None less[of cs] show ?thesis by (subst replace_all.simps) simp
    qed
  next
    case (Some r)
    obtain out rest where r: "r = (out, rest)" by (cases r)
    note facts = m_newlines_Some[OF Some[unfolded r]]
    from facts have lt: "length rest < length s" by blast
    from facts have out: "out = ''\<newline>\<newline>''" by blast
    from facts have rest: "rest = dropWhile (\<lambda>c. c = CHR ''\<newline>'') s" by blast
    have "filter (\<lambda>c. c \<noteq> CHR ''\<newline>'') (takeWhile (\<lambda>c. c = CHR ''\<newline>'') s) = []"
      by (auto simp: filter_empty_conv dest: set_takeWhileD)
    then have "filter (\<lambda>c. c \<noteq> CHR ''\<newline>'') (takeWhile (\<lambda>c. c = CHR ''\<newline>'') s @ rest)
        = filter (\<lambda>c. c \<noteq> CHR ''\<newline>'') rest"
      by simp
    then have keep: "filter (\<lambda>c. c \<noteq> CHR ''\<newline>'') s = filter (\<lambda>c. c \<noteq> CHR ''\<newline>'') rest"
      unfolding rest by simp
    have "replace_all m_newlines bol s
        = out @ replace_all m_newlines (ends_line (take (length s - length rest) s)) rest"
      using Some r lt by (subst replace_all.simps) simp
    then show ?thesis
      using less[OF lt] keep out by simp
  qed
qed

subsection \<open>The header survives\<close>

lemma preprocessContent_unfold:
  "preprocessContent raw f
     = trim (replace_all m_newlines True (header f @ ''\<newline>\<newline>'' @ markdown_stripped raw))"
  by (simp add: preprocessContent_def Let_def header_def markdown_stripped_def)

lemma not_space_T: "\<not> is_space CHR ''T''"
  by (simp add: is_space_def)

lemma not_space_P: "\<not> is_space CHR ''P''"
  by (simp add: is_space_def)

lemma prefix_Title: "prefix ''Title: '' (preprocessContent raw f)"
proof -
  let ?tail = "basename f @ ''\<newline>Path: '' @ path f @ ''\<newline>\<newline>'' @ markdown_stripped raw"
  let ?Y = "replace_all m_newlines True ?tail"
  have R0: "replace_all m_newlines True (header f @ ''\<newline>\<newline>'' @ markdown_stripped raw)
      = ''Title: '' @ ?Y"
    using replace_newlines_copy[of "''Title: ''" True ?tail] by (simp add: header_def)
  have "CHR ''P'' \<in> set (filter (\<lambda>c. c \<noteq> CHR ''\<newline>'') ?tail)" by simp
  then have "CHR ''P'' \<in> set (filter (\<lambda>c. c \<noteq> CHR ''\<newline>'') ?Y)"
    by (simp only: replace_newlines_keeps)
  then have "CHR ''P'' \<in> set ?Y" by simp
  then obtain y1 y2 where Y: "?Y = y1 @ CHR ''P'' # y2"
    by (auto simp: in_set_conv_decomp)
  let ?h = "''Title: '' @ y1 @ ''P''"
  have "prefix ?h (trim (?h @ y2))"
    by (rule trim_keeps_prefix) (simp_all add: not_space_T not_space_P)
  moreover have "?h @ y2 = ''Title: '' @ ?Y" using Y by simp
  ultimately have "prefix ?h (preprocessContent raw f)"
    by (simp only: preprocessContent_unfold R0)
  moreover have "prefix ''Title: '' ?h" by simp
  ultimately show ?thesis by (rule prefix_order.trans[rotated])
qed

lemma preprocessContent_Cons: "\<exists>rest. preprocessContent raw f = CHR ''T'' # rest"
  using prefix_Title[of raw f] by (auto simp: prefix_def)

lemma preprocessContent_nonempty: "preprocessContent raw f \<noteq> []"
  using preprocessContent_Cons[of raw f] by auto

lemma trim_preprocessContent_nonempty: "trim (preprocessContent raw f) \<noteq> []"
proof -
  obtain rest where "preprocessContent raw f = CHR ''T'' # rest"
    using preprocessContent_Cons by blast
  then show ?thesis by (simp add: trim_Cons_nonempty not_space_T)
qed

lemma prefix_header:
  assumes "CHR ''\<newline>'' \<notin> set (basename f)" "CHR ''\<newline>'' \<notin> set (path f)"
    and "path f \<noteq> []" "\<not> is_space (last (path f))"
  shows "prefix (header f) (preprocessContent raw f)"
proof -
  let ?body = "''\<newline>\<newline>'' @ markdown_stripped raw"
  let ?Z = "replace_all m_newlines True ?body"
  have first: "CHR ''\<newline>'' \<notin> set (''Title: '' @ basename f)"
    using assms(1) by simp
  have second: "CHR ''\<newline>'' \<notin> set (''ath: '' @ path f)"
    using assms(2) by simp
  have "replace_all m_newlines True (header f @ ?body)
      = (''Title: '' @ basename f)
          @ replace_all m_newlines True (CHR ''\<newline>'' # CHR ''P'' # (''ath: '' @ path f) @ ?body)"
    using replace_newlines_copy[OF first, of True] by (simp add: header_def)
  also have "replace_all m_newlines True (CHR ''\<newline>'' # CHR ''P'' # (''ath: '' @ path f) @ ?body)
      = CHR ''\<newline>'' # replace_all m_newlines True (CHR ''P'' # (''ath: '' @ path f) @ ?body)"
    by (rule replace_newlines_single) simp
  also have "replace_all m_newlines True (CHR ''P'' # (''ath: '' @ path f) @ ?body)
      = CHR ''P'' # replace_all m_newlines True ((''ath: '' @ path f) @ ?body)"
    using replace_newlines_Cons[of "CHR ''P''" True "(''ath: '' @ path f) @ ?body"]
      replace_newlines_bol[of "is_line_terminator CHR ''P''" _ True]
    by simp
  also have "replace_all m_newlines True ((''ath: '' @ path f) @ ?body)
      = (''ath: '' @ path f) @ ?Z"
    by (rule replace_newlines_copy[OF second])
  finally have R0: "replace_all m_newlines True (header f @ ?body) = header f @ ?Z"
    by (simp add: header_def)
  have "prefix (header f) (trim (header f @ ?Z))"
    by (rule trim_keeps_prefix) (use assms(3,4) in \<open>simp_all add: header_def not_space_T\<close>)
  then show ?thesis
    by (simp only: preprocessContent_unfold R0)
qed

lemma kept_loop:
  "map fst (snd (fold (read_step a) files acc))
     = map fst (snd acc) @ filter (\<lambda>f. \<not> isl (cachedRead a f)) files"
proof (induction files arbitrary: acc)
  case Nil
  then show ?case by simp
next
  case (Cons f files)
  have "map fst (snd (read_step a f acc))
      = map fst (snd acc) @ (if isl (cachedRead a f) then [] else [f])"
    by (simp add: read_step_def trim_preprocessContent_nonempty split: sum.splits)
  with Cons[of "read_step a f acc"] show ?case by simp
qed

lemma readBatch_keeps_all:
  "map fst (snd (readBatch a files)) = filter (\<lambda>f. \<not> isl (cachedRead a f)) files"
  using kept_loop[of a files "([], [])"] by (simp add: readBatch_fold)

subsection \<open>Tag extraction\<close>

lemma Set_values_loop:
  "distinct acc \<Longrightarrow>
     distinct (fold (\<lambda>x seen. if x \<in> set seen then seen else seen @ [x]) xs acc)
     \<and> set (fold (\<lambda>x seen. if x \<in> set seen then seen else seen @ [x]) xs acc) = set acc \<union> set xs"
  by (induction xs arbitrary: acc) auto

lemma distinct_Set_values: "distinct (Set_values xs)"
  using Set_values_loop[of "[]" xs] by (simp add: Set_values_def)

lemma set_Set_values: "set (Set_values xs) = set xs"
  using Set_values_loop[of "[]" xs] by (simp add: Set_values_def)

lemma distinct_extractTags: "distinct (extractTags s)"
  by (simp add: extractTags_def Let_def distinct_Set_values)

lemma hashtags_in_extractTags:
  "t \<in> set (match_all m_hashtag True s) \<Longrightarrow> drop 1 t \<in> set (extractTags s)"
  by (auto simp: extractTags_def Let_def set_Set_values split: option.splits)

lemma dropWhile_stop:
  "\<not> P y \<Longrightarrow> dropWhile P (xs @ y # ys) = dropWhile P xs @ y # ys"
  by (induction xs) auto

lemma not_wordish_hash: "\<not> (is_word CHR ''#'' \<or> CHR ''#'' = CHR ''-'')"
  by (simp add: is_word_def)

lemma match_all_hashtag_complete:
  assumes "takeWhile (\<lambda>x. is_word x \<or> x = CHR ''-'') post \<noteq> []"
  shows "CHR ''#'' # takeWhile (\<lambda>x. is_word x \<or> x = CHR ''-'') post
           \<in> set (match_all m_hashtag bol (pre @ CHR ''#'' # post))"
proof (induction "length pre" arbitrary: pre bol rule: less_induct)
  case less
  let ?w = "\<lambda>x. is_word x \<or> x = CHR ''-''"
  show ?case
  proof (cases pre)
    case Nil
    have m: "m_hashtag bol (CHR ''#'' # post) = Some ([], dropWhile ?w post)"
      using assms by (simp add: m_hashtag_def)
    have lt: "length (dropWhile ?w post) < length (CHR ''#'' # post)"
      by (simp add: length_dropWhile_le less_Suc_eq_le)
    have len: "length post = length (takeWhile ?w post) + length (dropWhile ?w post)"
      by (metis length_append takeWhile_dropWhile_id)
    have n: "length (CHR ''#'' # post) - length (dropWhile ?w post)
        = Suc (length (takeWhile ?w post))"
      by (simp add: len)
    have "take (length (takeWhile ?w post)) post = takeWhile ?w post"
      by (rule takeWhile_eq_take[symmetric])
    then have "take (length (CHR ''#'' # post) - length (dropWhile ?w post)) (CHR ''#'' # post)
        = CHR ''#'' # takeWhile ?w post"
      unfolding n by simp
    with m lt Nil show ?thesis
      by (subst match_all.simps) simp
  next
    case (Cons c pre')
    show ?thesis
    proof (cases "m_hashtag bol (pre @ CHR ''#'' # post)")
      case None
      with Cons less(1)[of pre' "is_line_terminator c"] show ?thesis
        by (subst match_all.simps) simp
    next
      case (Some r)
      obtain out rest where r: "r = (out, rest)" by (cases r)
      from Some r Cons have rest: "rest = dropWhile ?w (pre' @ CHR ''#'' # post)"
        by (auto simp: m_hashtag_def split: if_splits)
      then have rest': "rest = dropWhile ?w pre' @ CHR ''#'' # post"
        using dropWhile_stop[of ?w "CHR ''#''" pre' post] not_wordish_hash by simp
      have "length (dropWhile ?w pre') \<le> length pre'"
        by (rule length_dropWhile_le)
      then have short: "length (dropWhile ?w pre') < length pre"
        using Cons by simp
      have lt: "length rest < length (pre @ CHR ''#'' # post)"
        using rest' short by simp
      have "match_all m_hashtag bol (pre @ CHR ''#'' # post)
          = take (length (pre @ CHR ''#'' # post) - length rest) (pre @ CHR ''#'' # post)
              # match_all m_hashtag
                  (ends_line (take (length (pre @ CHR ''#'' # post) - length rest)
                     (pre @ CHR ''#'' # post))) rest"
        using Some r lt by (subst match_all.simps) simp
      moreover have "CHR ''#'' # takeWhile ?w post \<in> set (match_all m_hashtag b rest)" for b
        unfolding rest' using less(1)[OF short] .
      ultimately show ?thesis by simp
    qed
  qed
qed

lemma frontmatter_match_preprocessed: "frontmatter_match (preprocessContent raw f) = None"
proof -
  obtain rest where "preprocessContent raw f = CHR ''T'' # rest"
    using preprocessContent_Cons by blast
  then show ?thesis by (simp add: frontmatter_match_def)
qed

lemma extractTags_preprocessed:
  "extractTags (preprocessContent raw f)
     = Set_values (map (drop 1) (match_all m_hashtag True (preprocessContent raw f)))"
  by (simp add: extractTags_def Let_def frontmatter_match_preprocessed)

lemma tagged_raw: "extractTags tagged_note = [''x'', ''alpha'', ''beta'']"
  by code_simp

lemma tagged_preprocessed:
  "preprocessContent tagged_note (example_file ''a'' 1)
     = ''Title: a\<newline>Path: a.md\<newline>\<newline>Body #x''"
  by code_simp

lemma tagged_tags: "extractTags ''Title: a\<newline>Path: a.md\<newline>\<newline>Body #x'' = [''x'']"
  by code_simp

lemma tagged_embeddings:
  "generateEmbeddings example_service [''Title: a\<newline>Path: a.md\<newline>\<newline>Body #x''] = [[1]]"
  by code_simp

lemma tagged_trim:
  "trim ''Title: a\<newline>Path: a.md\<newline>\<newline>Body #x'' \<noteq> []"
  by code_simp

lemma tagged_readBatch:
  "readBatch tagged_vault [example_file ''a'' 1]
     = ([''Title: a\<newline>Path: a.md\<newline>\<newline>Body #x''],
        [(example_file ''a'' 1, ''Title: a\<newline>Path: a.md\<newline>\<newline>Body #x'')])"
  by (simp add: readBatch_def tagged_vault_def tagged_preprocessed tagged_trim Let_def)

lemma tagged_processBatch:
  "map tags (processBatch example_service tagged_vault [example_file ''a'' 1]) = [Some [''x'']]"
  unfolding processBatch_unfold tagged_readBatch
  by (simp add: tagged_embeddings entry_at_def tagged_tags)

lemma spaced_path_preprocessed:
  "preprocessContent [] \<lparr>path = ''a '', basename = ''a '', mtime = 0\<rparr> = ''Title: a \<newline>Path: a''"
  by code_simp

subsection \<open>Preprocessing never yields an empty text\<close>

text \<open>
  C10 as stated fails for a file whose path ends in white space, here the file \<^verbatim>\<open>a \<close> without
  extension: with an empty document the final \<^verbatim>\<open>trim()\<close> removes the end of the header, so
  the result does not begin with the header, which ends in the space of the path.
\<close>

theorem preprocessContent_header_counterexample:
  "preprocessContent [] \<lparr>path = ''a '', basename = ''a '', mtime = 0\<rparr> = ''Title: a \<newline>Path: a''
   \<and> header \<lparr>path = ''a '', basename = ''a '', mtime = 0\<rparr> = ''Title: a \<newline>Path: a ''
   \<and> \<not> prefix (header \<lparr>path = ''a '', basename = ''a '', mtime = 0\<rparr>)
         (preprocessContent [] \<lparr>path = ''a '', basename = ''a '', mtime = 0\<rparr>)"
  by (simp add: spaced_path_preprocessed header_def)

text \<open>
  C10, amended. For every raw text and every file, \<^verbatim>\<open>preprocessContent\<close> returns a string that
  is not empty, that is not empty after \<^verbatim>\<open>trim()\<close> either, and that begins with \<^verbatim>\<open>Title: \<close>.
  It begins with the whole header \<^verbatim>\<open>Title: <basename>\nPath: <path>\<close> when neither the basename
  nor the path contains a newline and the path is not empty and does not end in white space.
  Consequently the first loop of \<^verbatim>\<open>processBatch\<close> keeps every file whose read succeeds: no
  document is discarded for being empty.
\<close>

theorem preprocessContent_never_empty:
  "preprocessContent raw f \<noteq> []
   \<and> trim (preprocessContent raw f) \<noteq> []
   \<and> prefix ''Title: '' (preprocessContent raw f)
   \<and> (CHR ''\<newline>'' \<notin> set (basename f) \<and> CHR ''\<newline>'' \<notin> set (path f)
        \<and> path f \<noteq> [] \<and> \<not> is_space (last (path f))
        \<longrightarrow> prefix (header f) (preprocessContent raw f))
   \<and> map fst (snd (readBatch a files)) = filter (\<lambda>f. \<not> isl (cachedRead a f)) files"
  using preprocessContent_nonempty[of raw f] trim_preprocessContent_nonempty[of raw f]
    prefix_Title[of raw f] prefix_header[of f raw] readBatch_keeps_all[of a files]
  by blast

theorem preprocessContent_never_empty_witness:
  "CHR ''\<newline>'' \<notin> set (basename (example_file ''a'' 1))
   \<and> CHR ''\<newline>'' \<notin> set (path (example_file ''a'' 1))
   \<and> path (example_file ''a'' 1) \<noteq> []
   \<and> \<not> is_space (last (path (example_file ''a'' 1)))
   \<and> header (example_file ''a'' 1) = ''Title: a\<newline>Path: a.md''
   \<and> preprocessContent tagged_note (example_file ''a'' 1)
       = ''Title: a\<newline>Path: a.md\<newline>\<newline>Body #x''
   \<and> prefix (header (example_file ''a'' 1))
         (preprocessContent tagged_note (example_file ''a'' 1))"
proof -
  have f: "CHR ''\<newline>'' \<notin> set (basename (example_file ''a'' 1))
      \<and> CHR ''\<newline>'' \<notin> set (path (example_file ''a'' 1))
      \<and> path (example_file ''a'' 1) \<noteq> []
      \<and> \<not> is_space (last (path (example_file ''a'' 1)))"
    by (simp add: example_file_def is_space_def)
  have h: "header (example_file ''a'' 1) = ''Title: a\<newline>Path: a.md''"
    by (simp add: header_def example_file_def)
  from preprocessContent_never_empty[of tagged_note "example_file ''a'' 1"] f
  have "prefix (header (example_file ''a'' 1))
          (preprocessContent tagged_note (example_file ''a'' 1))"
    by blast
  with f h tagged_preprocessed show ?thesis by blast
qed

subsection \<open>Tags\<close>

text \<open>
  What holds of \<^verbatim>\<open>extractTags\<close> on any text: the list has no duplicates; for every \<^verbatim>\<open>#\<close> of
  the text that is followed by a word character or a hyphen, the longest run of such
  characters after it is in the list; and when the text itself begins with a front-matter
  block in which \<^verbatim>\<open>tags: [...]\<close> is found, the trimmed, unquoted items of that list are in it.
\<close>

lemma extractTags_on_any_text:
  "distinct (extractTags s)
   \<and> (takeWhile (\<lambda>x. is_word x \<or> x = CHR ''-'') post \<noteq> [] \<longrightarrow>
        takeWhile (\<lambda>x. is_word x \<or> x = CHR ''-'') post
          \<in> set (extractTags (pre @ CHR ''#'' # post)))
   \<and> (frontmatter_match s = Some frontmatter \<and> search_first m_tags frontmatter = Some inner \<longrightarrow>
        set (map (\<lambda>t. filter (\<lambda>c. c \<noteq> CHR 0x27 \<and> c \<noteq> CHR 0x22) (trim t)) (split CHR '','' inner))
          \<subseteq> set (extractTags s))"
proof -
  have hashtag: "takeWhile (\<lambda>x. is_word x \<or> x = CHR ''-'') post
      \<in> set (extractTags (pre @ CHR ''#'' # post))"
    if "takeWhile (\<lambda>x. is_word x \<or> x = CHR ''-'') post \<noteq> []"
    using hashtags_in_extractTags[OF match_all_hashtag_complete[OF that, of True pre]] by simp
  have declared: "set (map (\<lambda>t. filter (\<lambda>c. c \<noteq> CHR 0x27 \<and> c \<noteq> CHR 0x22) (trim t))
          (split CHR '','' inner)) \<subseteq> set (extractTags s)"
    if "frontmatter_match s = Some frontmatter" "search_first m_tags frontmatter = Some inner"
    using that by (simp add: extractTags_def Let_def set_Set_values)
  from hashtag declared distinct_extractTags[of s] show ?thesis by blast
qed

text \<open>
  C9 (tags of an indexed note). \<^verbatim>\<open>processBatch\<close> passes the preprocessed text to
  \<^verbatim>\<open>extractTags\<close>. That text begins with \<^verbatim>\<open>Title: \<close>, so the front-matter expression, which is
  anchored at the start of the text, never matches it, and the tags are the hashtags of the
  preprocessed text alone. For the note \<open>tagged_note\<close>, whose front matter declares \<open>alpha\<close>
  and \<open>beta\<close>, \<^verbatim>\<open>extractTags\<close> on the raw text gives \<open>x\<close>, \<open>alpha\<close>, \<open>beta\<close>, but the entry that
  \<^verbatim>\<open>processBatch\<close> builds has the tag \<open>x\<close> only.
\<close>

theorem frontmatter_tags_not_extracted:
  "frontmatter_match (preprocessContent raw f) = None
   \<and> extractTags (preprocessContent raw f)
       = Set_values (map (drop 1) (match_all m_hashtag True (preprocessContent raw f)))
   \<and> extractTags tagged_note = [''x'', ''alpha'', ''beta'']
   \<and> preprocessContent tagged_note (example_file ''a'' 1)
       = ''Title: a\<newline>Path: a.md\<newline>\<newline>Body #x''
   \<and> map tags (processBatch example_service tagged_vault [example_file ''a'' 1])
       = [Some [''x'']]"
  using frontmatter_match_preprocessed[of raw f] extractTags_preprocessed[of raw f]
    tagged_raw tagged_preprocessed tagged_processBatch
  by blast

end
